theory Spec2Isabelle
  imports Main "HOL-Library.Finite_Map"
begin

section \<open>Data model of bimap.go and immutable.go\<close>

text \<open>
  A Go map is a finite partial function, so \<open>map[K]V\<close> is \<open>('k, 'v) fmap\<close>:
  \<open>m[k]\<close> with the comma-ok idiom is \<open>fmlookup m k\<close> (\<open>Some v\<close> for \<open>(v, true)\<close>,
  \<open>None\<close> for the zero value with \<open>false\<close>), \<open>m[k] = v\<close> is \<open>fmupd k v m\<close>,
  \<open>delete(m, k)\<close> is \<open>fmdrop k m\<close> (a no-op on an absent key in both) and
  \<open>len(m)\<close> is the number of keys.

  The model is sequential: every method is called with the instance's mutex free, runs to
  its end and releases the mutex (the deferred unlock also runs when the method panics).
  A panic is recoverable in Go, so a mutating method returns its outcome together with
  the state the instance is left in.
\<close>

datatype error = Panic string

record ('k, 'v) BiMap =
  immutable :: bool
  forward :: "('k, 'v) fmap"
  inverse :: "('v, 'k) fmap"

record ('k, 'v) ImmutableBiMap =
  ib_forward :: "('k, 'v) fmap"
  ib_inverse :: "('v, 'k) fmap"

section \<open>BiMap (bimap.go)\<close>

definition NewBiMap :: "('k, 'v) BiMap" where
  "NewBiMap = \<lparr>immutable = False, forward = fmempty, inverse = fmempty\<rparr>"

definition Insert :: "('k, 'v) BiMap \<Rightarrow> 'k \<Rightarrow> 'v \<Rightarrow> (error + unit) \<times> ('k, 'v) BiMap" where
  "Insert b k v =
     (if immutable b then (Inl (Panic ''Cannot modify immutable map''), b)
      else
        let inv1 = (case fmlookup (forward b) k of
                      Some v_old \<Rightarrow> fmdrop v_old (inverse b)
                    | None \<Rightarrow> inverse b)
        in (Inr (), b\<lparr>forward := fmupd k v (forward b), inverse := fmupd v k inv1\<rparr>))"

definition ExistsByKey :: "('k, 'v) BiMap \<Rightarrow> 'k \<Rightarrow> bool" where
  "ExistsByKey b k = (case fmlookup (forward b) k of Some _ \<Rightarrow> True | None \<Rightarrow> False)"

definition Exists :: "('k, 'v) BiMap \<Rightarrow> 'k \<Rightarrow> bool" where
  "Exists b k = ExistsByKey b k"

definition ExistsByValue :: "('k, 'v) BiMap \<Rightarrow> 'v \<Rightarrow> bool" where
  "ExistsByValue b k = (case fmlookup (inverse b) k of Some _ \<Rightarrow> True | None \<Rightarrow> False)"

definition ExistsInverse :: "('k, 'v) BiMap \<Rightarrow> 'v \<Rightarrow> bool" where
  "ExistsInverse b k = ExistsByValue b k"

definition GetByKey :: "('k, 'v) BiMap \<Rightarrow> 'k \<Rightarrow> 'v option" where
  "GetByKey b k = fmlookup (forward b) k"

definition Get :: "('k, 'v) BiMap \<Rightarrow> 'k \<Rightarrow> 'v option" where
  "Get b k = GetByKey b k"

definition GetByValue :: "('k, 'v) BiMap \<Rightarrow> 'v \<Rightarrow> 'k option" where
  "GetByValue b v = fmlookup (inverse b) v"

definition GetInverse :: "('k, 'v) BiMap \<Rightarrow> 'v \<Rightarrow> 'k option" where
  "GetInverse b v = GetByValue b v"

definition GetByKeyWithFallback :: "('k, 'v) BiMap \<Rightarrow> 'k \<Rightarrow> 'v \<Rightarrow> 'v" where
  "GetByKeyWithFallback b k fallback =
     (case GetByKey b k of Some v \<Rightarrow> v | None \<Rightarrow> fallback)"

definition GetByValueWithFallback :: "('k, 'v) BiMap \<Rightarrow> 'v \<Rightarrow> 'k \<Rightarrow> 'k" where
  "GetByValueWithFallback b v fallback =
     (case GetByValue b v of Some k \<Rightarrow> k | None \<Rightarrow> fallback)"

definition DeleteByKey :: "('k, 'v) BiMap \<Rightarrow> 'k \<Rightarrow> (error + unit) \<times> ('k, 'v) BiMap" where
  "DeleteByKey b k =
     (if immutable b then (Inl (Panic ''Cannot modify immutable map''), b)
      else case fmlookup (forward b) k of
             None \<Rightarrow> (Inr (), b)
           | Some val \<Rightarrow>
               (Inr (), b\<lparr>forward := fmdrop k (forward b), inverse := fmdrop val (inverse b)\<rparr>))"

definition Delete :: "('k, 'v) BiMap \<Rightarrow> 'k \<Rightarrow> (error + unit) \<times> ('k, 'v) BiMap" where
  "Delete b k = DeleteByKey b k"

definition DeleteByValue :: "('k, 'v) BiMap \<Rightarrow> 'v \<Rightarrow> (error + unit) \<times> ('k, 'v) BiMap" where
  "DeleteByValue b v =
     (if immutable b then (Inl (Panic ''Cannot modify immutable map''), b)
      else case fmlookup (inverse b) v of
             None \<Rightarrow> (Inr (), b)
           | Some key \<Rightarrow>
               (Inr (), b\<lparr>inverse := fmdrop v (inverse b), forward := fmdrop key (forward b)\<rparr>))"

definition DeleteInverse :: "('k, 'v) BiMap \<Rightarrow> 'v \<Rightarrow> (error + unit) \<times> ('k, 'v) BiMap" where
  "DeleteInverse b v = DeleteByValue b v"

definition Size :: "('k, 'v) BiMap \<Rightarrow> int" where
  "Size b = int (fcard (fmdom (forward b)))"

definition MakeImmutable :: "('k, 'v) BiMap \<Rightarrow> ('k, 'v) BiMap" where
  "MakeImmutable b = b\<lparr>immutable := True\<rparr>"

section \<open>ImmutableBiMap (immutable.go)\<close>

definition GetByKey_Immutable :: "('k, 'v) ImmutableBiMap \<Rightarrow> 'k \<Rightarrow> 'v option" where
  "GetByKey_Immutable b k = fmlookup (ib_forward b) k"

definition GetByValue_Immutable :: "('k, 'v) ImmutableBiMap \<Rightarrow> 'v \<Rightarrow> 'k option" where
  "GetByValue_Immutable b v = fmlookup (ib_inverse b) v"

definition GetByKeyWithFallback_Immutable :: "('k, 'v) ImmutableBiMap \<Rightarrow> 'k \<Rightarrow> 'v \<Rightarrow> 'v" where
  "GetByKeyWithFallback_Immutable b k fallback =
     (case fmlookup (ib_forward b) k of Some v \<Rightarrow> v | None \<Rightarrow> fallback)"

definition GetByValueWithFallback_Immutable :: "('k, 'v) ImmutableBiMap \<Rightarrow> 'v \<Rightarrow> 'k \<Rightarrow> 'k" where
  "GetByValueWithFallback_Immutable b v fallback =
     (case fmlookup (ib_inverse b) v of Some k \<Rightarrow> k | None \<Rightarrow> fallback)"

definition ExistsByKey_Immutable :: "('k, 'v) ImmutableBiMap \<Rightarrow> 'k \<Rightarrow> bool" where
  "ExistsByKey_Immutable b k = (case fmlookup (ib_forward b) k of Some _ \<Rightarrow> True | None \<Rightarrow> False)"

definition ExistsByValue_Immutable :: "('k, 'v) ImmutableBiMap \<Rightarrow> 'v \<Rightarrow> bool" where
  "ExistsByValue_Immutable b v = (case fmlookup (ib_inverse b) v of Some _ \<Rightarrow> True | None \<Rightarrow> False)"

definition Size_Immutable :: "('k, 'v) ImmutableBiMap \<Rightarrow> int" where
  "Size_Immutable b = int (fcard (fmdom (ib_forward b)))"

section \<open>Sequences of calls on one instance\<close>

text \<open>
  The mutating methods of \<open>BiMap\<close>. A caller can recover from a panic (the repository's
  tests do, with \<open>assert.Panics\<close>) and go on calling methods, so a sequence of calls
  continues from the state each call leaves.
\<close>

datatype ('k, 'v) call =
    CallInsert 'k 'v
  | CallDeleteByKey 'k
  | CallDeleteByValue 'v
  | CallDelete 'k
  | CallDeleteInverse 'v
  | CallMakeImmutable

fun exec :: "('k, 'v) BiMap \<Rightarrow> ('k, 'v) call \<Rightarrow> (error + unit) \<times> ('k, 'v) BiMap" where
  "exec b (CallInsert k v) = Insert b k v"
| "exec b (CallDeleteByKey k) = DeleteByKey b k"
| "exec b (CallDeleteByValue v) = DeleteByValue b v"
| "exec b (CallDelete k) = Delete b k"
| "exec b (CallDeleteInverse v) = DeleteInverse b v"
| "exec b CallMakeImmutable = (Inr (), MakeImmutable b)"

fun run :: "('k, 'v) BiMap \<Rightarrow> ('k, 'v) call list \<Rightarrow> ('k, 'v) BiMap" where
  "run b [] = b"
| "run b (c # cs) = run (snd (exec b c)) cs"

text \<open>
  The value collision of the specification: \<open>Insert(k2, v)\<close> called while \<open>v\<close> is the
  forward value of a key other than \<open>k2\<close>.
\<close>

fun collides :: "('k, 'v) BiMap \<Rightarrow> ('k, 'v) call \<Rightarrow> bool" where
  "collides b (CallInsert k2 v) = (v |\<in>| fmran (fmdrop k2 (forward b)))"
| "collides b _ = False"

fun collision_free :: "('k, 'v) BiMap \<Rightarrow> ('k, 'v) call list \<Rightarrow> bool" where
  "collision_free b [] = True"
| "collision_free b (c # cs) = (\<not> collides b c \<and> collision_free (snd (exec b c)) cs)"

text \<open>Invariant I1 of the specification, as section 8 states it.\<close>

definition forward_inverse_agree :: "('k, 'v) BiMap \<Rightarrow> bool" where
  "forward_inverse_agree b = fmpred (\<lambda>k v. fmlookup (inverse b) v = Some k) (forward b)"

definition same_size :: "('k, 'v) BiMap \<Rightarrow> bool" where
  "same_size b = (fcard (fmdom (forward b)) = fcard (fmdom (inverse b)))"

definition bijection_invariant :: "('k, 'v) BiMap \<Rightarrow> bool" where
  "bijection_invariant b = (forward_inverse_agree b \<and> same_size b)"

section \<open>Map objects and references\<close>

text \<open>
  \<open>Freeze\<close>, \<open>GetForwardMap\<close> and \<open>GetInverseMap\<close> differ in which map object the
  result refers to, so they are modelled over a store of map objects: a Go map value is
  a reference, here an address, and the two struct types hold addresses. \<open>brk\<close> is the
  first address never handed out; \<open>make\<close> returns it.

  The records \<open>BiMap\<close> and \<open>ImmutableBiMap\<close> above are what a struct's references hold
  in a given store (\<open>deref\<close>, \<open>deref_Immutable\<close>); a mutating method changes the map
  objects in place (\<open>on_heap\<close>).
\<close>

type_synonym addr = nat

record ('k, 'v) heap =
  kv_maps :: "addr \<Rightarrow> ('k, 'v) fmap"
  vk_maps :: "addr \<Rightarrow> ('v, 'k) fmap"
  brk :: addr

record BiMap_ref =
  ref_immutable :: bool
  ref_forward :: addr
  ref_inverse :: addr

record ImmutableBiMap_ref =
  iref_forward :: addr
  iref_inverse :: addr

definition make_kv :: "('k, 'v) heap \<Rightarrow> addr \<times> ('k, 'v) heap" where
  "make_kv h = (brk h, h\<lparr>kv_maps := (kv_maps h)(brk h := fmempty), brk := Suc (brk h)\<rparr>)"

definition make_vk :: "('k, 'v) heap \<Rightarrow> addr \<times> ('k, 'v) heap" where
  "make_vk h = (brk h, h\<lparr>vk_maps := (vk_maps h)(brk h := fmempty), brk := Suc (brk h)\<rparr>)"

definition set_kv :: "('k, 'v) heap \<Rightarrow> addr \<Rightarrow> 'k \<Rightarrow> 'v \<Rightarrow> ('k, 'v) heap" where
  "set_kv h m k v = h\<lparr>kv_maps := (kv_maps h)(m := fmupd k v (kv_maps h m))\<rparr>"

definition set_vk :: "('k, 'v) heap \<Rightarrow> addr \<Rightarrow> 'v \<Rightarrow> 'k \<Rightarrow> ('k, 'v) heap" where
  "set_vk h m v k = h\<lparr>vk_maps := (vk_maps h)(m := fmupd v k (vk_maps h m))\<rparr>"

definition allocated :: "('k, 'v) heap \<Rightarrow> BiMap_ref \<Rightarrow> bool" where
  "allocated h b = (ref_forward b < brk h \<and> ref_inverse b < brk h)"

definition allocated_Immutable :: "('k, 'v) heap \<Rightarrow> ImmutableBiMap_ref \<Rightarrow> bool" where
  "allocated_Immutable h b = (iref_forward b < brk h \<and> iref_inverse b < brk h)"

definition deref :: "('k, 'v) heap \<Rightarrow> BiMap_ref \<Rightarrow> ('k, 'v) BiMap" where
  "deref h b = \<lparr>immutable = ref_immutable b,
                forward = kv_maps h (ref_forward b),
                inverse = vk_maps h (ref_inverse b)\<rparr>"

definition deref_Immutable :: "('k, 'v) heap \<Rightarrow> ImmutableBiMap_ref \<Rightarrow> ('k, 'v) ImmutableBiMap" where
  "deref_Immutable h b = \<lparr>ib_forward = kv_maps h (iref_forward b),
                          ib_inverse = vk_maps h (iref_inverse b)\<rparr>"

definition on_heap ::
  "(('k, 'v) BiMap \<Rightarrow> (error + unit) \<times> ('k, 'v) BiMap) \<Rightarrow>
   ('k, 'v) heap \<Rightarrow> BiMap_ref \<Rightarrow> (error + unit) \<times> BiMap_ref \<times> ('k, 'v) heap" where
  "on_heap method h b =
     (let (res, s) = method (deref h b)
      in (res,
          b\<lparr>ref_immutable := immutable s\<rparr>,
          h\<lparr>kv_maps := (kv_maps h)(ref_forward b := forward s),
            vk_maps := (vk_maps h)(ref_inverse b := inverse s)\<rparr>))"

fun run_heap ::
  "('k, 'v) heap \<Rightarrow> BiMap_ref \<Rightarrow> ('k, 'v) call list \<Rightarrow> BiMap_ref \<times> ('k, 'v) heap" where
  "run_heap h b [] = (b, h)"
| "run_heap h b (c # cs) =
     (let (res, b', h') = on_heap (\<lambda>s. exec s c) h b in run_heap h' b' cs)"

text \<open>
  Go leaves the order of \<open>for k, v := range m\<close> unspecified. The loops below take the
  order as a parameter: a list of the keys of \<open>m\<close>, each once. The loop body reads the
  value of the key from the map it ranges over. All three copying loops of the source
  have the same shape: \<open>for k, v := range src { dst[k] = v }\<close>.
\<close>

definition range_keys :: "('a, 'b) fmap \<Rightarrow> 'a list \<Rightarrow> bool" where
  "range_keys m ks = (distinct ks \<and> fset_of_list ks = fmdom m)"

definition copy_kv :: "('k, 'v) heap \<Rightarrow> addr \<Rightarrow> addr \<Rightarrow> 'k list \<Rightarrow> ('k, 'v) heap" where
  "copy_kv h src dst ks =
     fold (\<lambda>k h'. case fmlookup (kv_maps h' src) k of
                      Some v \<Rightarrow> set_kv h' dst k v
                    | None \<Rightarrow> h') ks h"

definition copy_vk :: "('k, 'v) heap \<Rightarrow> addr \<Rightarrow> addr \<Rightarrow> 'v list \<Rightarrow> ('k, 'v) heap" where
  "copy_vk h src dst vs =
     fold (\<lambda>v h'. case fmlookup (vk_maps h' src) v of
                      Some k \<Rightarrow> set_vk h' dst v k
                    | None \<Rightarrow> h') vs h"

definition NewBiMap_heap :: "('k, 'v) heap \<Rightarrow> BiMap_ref \<times> ('k, 'v) heap" where
  "NewBiMap_heap h =
     (let (fwd, h1) = make_kv h;
          (inv, h2) = make_vk h1
      in (\<lparr>ref_immutable = False, ref_forward = fwd, ref_inverse = inv\<rparr>, h2))"

definition Freeze ::
  "'k list \<Rightarrow> 'v list \<Rightarrow> ('k, 'v) heap \<Rightarrow> BiMap_ref \<Rightarrow>
   ImmutableBiMap_ref \<times> ('k, 'v) heap" where
  "Freeze fwd_order inv_order h b =
     (let (fwd, h1) = make_kv h;
          (inv, h2) = make_vk h1;
          h3 = copy_kv h2 (ref_forward b) fwd fwd_order;
          h4 = copy_vk h3 (ref_inverse b) inv inv_order
      in (\<lparr>iref_forward = fwd, iref_inverse = inv\<rparr>, h4))"

definition GetInverseMap :: "BiMap_ref \<Rightarrow> addr" where
  "GetInverseMap b = ref_inverse b"

definition GetForwardMap :: "BiMap_ref \<Rightarrow> addr" where
  "GetForwardMap b = ref_forward b"

definition GetForwardMap_Immutable ::
  "'k list \<Rightarrow> ('k, 'v) heap \<Rightarrow> ImmutableBiMap_ref \<Rightarrow> addr \<times> ('k, 'v) heap" where
  "GetForwardMap_Immutable fwd_order h b =
     (let (m, h1) = make_kv h
      in (m, copy_kv h1 (iref_forward b) m fwd_order))"

definition GetInverseMap_Immutable ::
  "'v list \<Rightarrow> ('k, 'v) heap \<Rightarrow> ImmutableBiMap_ref \<Rightarrow> addr \<times> ('k, 'v) heap" where
  "GetInverseMap_Immutable inv_order h b =
     (let (m, h1) = make_vk h
      in (m, copy_vk h1 (iref_inverse b) m inv_order))"

text \<open>
  The invariant as section 3 of the specification words it: the two maps are exact
  inverses of one another. It is the induction invariant behind \<open>bijection_invariant\<close>.
\<close>

definition exact_inverses :: "('k, 'v) BiMap \<Rightarrow> bool" where
  "exact_inverses b =
     (\<forall>k v. (fmlookup (forward b) k = Some v) = (fmlookup (inverse b) v = Some k))"

section \<open>Facts about finite maps\<close>

lemma fmupd_fmdrop_same: "fmupd a x (fmdrop a m) = fmupd a x m"
  by (rule fmap_ext) simp

section \<open>Insert is idempotent\<close>

text \<open>
  C10. On a BiMap that is not frozen, calling \<open>Insert(k, v)\<close> twice in a row leaves the
  forward and the inverse map exactly as one call does, and neither call panics.
\<close>

theorem Insert_idempotent:
  "\<not> immutable b \<Longrightarrow>
     Insert (snd (Insert b k v)) k v = (Inr (), snd (Insert b k v)) \<and>
     fst (Insert b k v) = Inr ()"
  by (auto simp: Insert_def Let_def fmupd_fmdrop_same split: option.splits)

theorem Insert_idempotent_witness:
  "\<not> immutable (snd (Insert NewBiMap ''a'' (1::int))) \<and>
   Insert (snd (Insert (snd (Insert NewBiMap ''a'' (1::int))) ''a'' 2)) ''a'' 2
     = (Inr (), snd (Insert (snd (Insert NewBiMap ''a'' (1::int))) ''a'' 2))"
  using Insert_idempotent [of "snd (Insert NewBiMap ''a'' (1::int))" "''a''" 2]
  by (simp add: Insert_def NewBiMap_def)

section \<open>Deprecated methods\<close>

text \<open>
  C9. Each deprecated method returns what its replacement returns, on every state and
  input: \<open>Get\<close> and \<open>GetByKey\<close>, \<open>GetInverse\<close> and \<open>GetByValue\<close>, \<open>Exists\<close> and
  \<open>ExistsByKey\<close>, \<open>ExistsInverse\<close> and \<open>ExistsByValue\<close>, \<open>Delete\<close> and
  \<open>DeleteByKey\<close>, \<open>DeleteInverse\<close> and \<open>DeleteByValue\<close>. For the two deletions the
  result is the outcome (returned or panicked) together with the state left behind, so
  the state changes and the panic on a frozen instance agree as well.
\<close>

theorem deprecated_methods_agree:
  "Get b k = GetByKey b k \<and>
   GetInverse b v = GetByValue b v \<and>
   Exists b k = ExistsByKey b k \<and>
   ExistsInverse b v = ExistsByValue b v \<and>
   Delete b k = DeleteByKey b k \<and>
   DeleteInverse b v = DeleteByValue b v"
  by (simp add: Get_def GetInverse_def Exists_def ExistsInverse_def Delete_def DeleteInverse_def)

theorem deprecated_methods_agree_witness:
  "Delete (MakeImmutable (snd (Insert NewBiMap ''a'' (1::int)))) ''a''
     = (Inl (Panic ''Cannot modify immutable map''),
        MakeImmutable (snd (Insert NewBiMap ''a'' (1::int)))) \<and>
   Get (snd (Insert NewBiMap ''a'' (1::int))) ''a'' = Some 1"
  using deprecated_methods_agree [of "MakeImmutable (snd (Insert NewBiMap ''a'' (1::int)))" "''a''" 1]
        deprecated_methods_agree [of "snd (Insert NewBiMap ''a'' (1::int))" "''a''" 1]
  by (simp add: Insert_def NewBiMap_def MakeImmutable_def DeleteByKey_def GetByKey_def)

section \<open>Lookups with a fallback\<close>

text \<open>
  C7. On every \<open>BiMap\<close> (frozen or not) and every \<open>ImmutableBiMap\<close>,
  \<open>GetByKeyWithFallback(k, F)\<close> is the stored value when \<open>k\<close> is present and \<open>F\<close> when it
  is absent, and \<open>GetByValueWithFallback(v, F)\<close> is the stored key when \<open>v\<close> is present and
  \<open>F\<close> when it is absent. The four functions have no panic in the source and are total
  functions with a plain result here.
\<close>

theorem fallback_lookups:
  "(fmlookup (forward b) k = Some v \<longrightarrow> GetByKeyWithFallback b k fb_v = v) \<and>
   (fmlookup (forward b) k = None \<longrightarrow> GetByKeyWithFallback b k fb_v = fb_v) \<and>
   (fmlookup (inverse b) w = Some j \<longrightarrow> GetByValueWithFallback b w fb_k = j) \<and>
   (fmlookup (inverse b) w = None \<longrightarrow> GetByValueWithFallback b w fb_k = fb_k) \<and>
   (fmlookup (ib_forward ib) k = Some v \<longrightarrow> GetByKeyWithFallback_Immutable ib k fb_v = v) \<and>
   (fmlookup (ib_forward ib) k = None \<longrightarrow> GetByKeyWithFallback_Immutable ib k fb_v = fb_v) \<and>
   (fmlookup (ib_inverse ib) w = Some j \<longrightarrow> GetByValueWithFallback_Immutable ib w fb_k = j) \<and>
   (fmlookup (ib_inverse ib) w = None \<longrightarrow> GetByValueWithFallback_Immutable ib w fb_k = fb_k)"
  by (simp add: GetByKeyWithFallback_def GetByValueWithFallback_def GetByKey_def GetByValue_def
        GetByKeyWithFallback_Immutable_def GetByValueWithFallback_Immutable_def)

theorem fallback_lookups_witness:
  "GetByKeyWithFallback (snd (Insert NewBiMap ''key'' ''value'')) ''key'' ''fallback'' = ''value'' \<and>
   GetByValueWithFallback (snd (Insert NewBiMap ''key'' ''value'')) ''missing'' ''fallback'' = ''fallback'' \<and>
   GetByKeyWithFallback_Immutable
     \<lparr>ib_forward = fmupd ''hello'' (42::int) fmempty, ib_inverse = fmupd 42 ''hello'' fmempty\<rparr>
     ''missing'' (-1) = -1 \<and>
   GetByValueWithFallback_Immutable
     \<lparr>ib_forward = fmupd ''hello'' (42::int) fmempty, ib_inverse = fmupd 42 ''hello'' fmempty\<rparr>
     42 ''default'' = ''hello''"
  using fallback_lookups [of "snd (Insert NewBiMap ''key'' ''value'')" "''key''" "''value''"
          "''fallback''" "''missing''" "''x''" "''fallback''"
          "\<lparr>ib_forward = fmempty, ib_inverse = fmempty\<rparr>"]
        fallback_lookups [of "NewBiMap :: (string, int) BiMap" "''missing''" 42 "-1" 42 "''hello''" "''default''"
          "\<lparr>ib_forward = fmupd ''hello'' (42::int) fmempty, ib_inverse = fmupd 42 ''hello'' fmempty\<rparr>"]
  by (simp add: Insert_def NewBiMap_def)

section \<open>Deleting a present or an absent entry\<close>

text \<open>
  C6. On a \<open>BiMap\<close> that is not frozen, \<open>DeleteByKey(k)\<close> with \<open>k\<close> mapped to \<open>val\<close>
  returns normally, removes \<open>k\<close> from the forward map and \<open>val\<close> from the inverse map and
  changes nothing else; with \<open>k\<close> absent it returns normally and leaves the state as it
  was. \<open>DeleteByValue(v)\<close> does the same from the inverse side.
\<close>

theorem Delete_present_or_absent:
  "\<not> immutable b \<Longrightarrow>
   (fmlookup (forward b) k = Some val \<longrightarrow>
      DeleteByKey b k = (Inr (), b\<lparr>forward := fmdrop k (forward b), inverse := fmdrop val (inverse b)\<rparr>) \<and>
      \<not> ExistsByKey (snd (DeleteByKey b k)) k \<and>
      \<not> ExistsByValue (snd (DeleteByKey b k)) val) \<and>
   (fmlookup (forward b) k = None \<longrightarrow> DeleteByKey b k = (Inr (), b)) \<and>
   (fmlookup (inverse b) v = Some key \<longrightarrow>
      DeleteByValue b v = (Inr (), b\<lparr>forward := fmdrop key (forward b), inverse := fmdrop v (inverse b)\<rparr>) \<and>
      \<not> ExistsByValue (snd (DeleteByValue b v)) v \<and>
      \<not> ExistsByKey (snd (DeleteByValue b v)) key) \<and>
   (fmlookup (inverse b) v = None \<longrightarrow> DeleteByValue b v = (Inr (), b))"
  by (simp add: DeleteByKey_def DeleteByValue_def ExistsByKey_def ExistsByValue_def)

theorem Delete_present_or_absent_witness:
  "\<not> immutable (snd (Insert NewBiMap ''DummyKey'' ''DummyVal'')) \<and>
   fmlookup (forward (snd (Insert NewBiMap ''DummyKey'' ''DummyVal''))) ''DummyKey'' = Some ''DummyVal'' \<and>
   fmlookup (inverse (snd (Insert NewBiMap ''DummyKey'' ''DummyVal''))) ''other'' = None \<and>
   \<not> ExistsByKey (snd (DeleteByKey (snd (Insert NewBiMap ''DummyKey'' ''DummyVal'')) ''DummyKey'')) ''DummyKey'' \<and>
   DeleteByValue (snd (Insert NewBiMap ''DummyKey'' ''DummyVal'')) ''other''
     = (Inr (), snd (Insert NewBiMap ''DummyKey'' ''DummyVal''))"
  using Delete_present_or_absent [of "snd (Insert NewBiMap ''DummyKey'' ''DummyVal'')"
          "''DummyKey''" "''DummyVal''" "''other''" "''x''"]
  by (simp add: Insert_def NewBiMap_def DeleteByKey_def DeleteByValue_def ExistsByKey_def)

section \<open>Inserting a value that another key holds\<close>

text \<open>
  C3. On a \<open>BiMap\<close> that is not frozen, with \<open>forward[k1] = v\<close> and a different key
  \<open>k2\<close> that is not mapped, \<open>Insert(k2, v)\<close> returns normally, only adds \<open>k2 \<mapsto> v\<close> to
  the forward map and only sets the slot of \<open>v\<close> in the inverse map to \<open>k2\<close>. Afterwards
  \<open>forward[k1] = v\<close>, \<open>forward[k2] = v\<close> and \<open>inverse[v] = k2\<close>, and the bijection
  invariant does not hold.
\<close>

theorem Insert_value_collision:
  "\<not> immutable b \<Longrightarrow> fmlookup (forward b) k1 = Some v \<Longrightarrow> k2 \<noteq> k1 \<Longrightarrow>
   fmlookup (forward b) k2 = None \<Longrightarrow>
   Insert b k2 v = (Inr (), b\<lparr>forward := fmupd k2 v (forward b), inverse := fmupd v k2 (inverse b)\<rparr>) \<and>
   fmlookup (forward (snd (Insert b k2 v))) k1 = Some v \<and>
   fmlookup (forward (snd (Insert b k2 v))) k2 = Some v \<and>
   fmlookup (inverse (snd (Insert b k2 v))) v = Some k2 \<and>
   \<not> forward_inverse_agree (snd (Insert b k2 v)) \<and>
   \<not> bijection_invariant (snd (Insert b k2 v))"
  by (auto simp: Insert_def forward_inverse_agree_def bijection_invariant_def fmpred_iff)

theorem Insert_value_collision_witness:
  "\<not> immutable (snd (Insert NewBiMap ''k1'' (7::int))) \<and>
   fmlookup (forward (snd (Insert NewBiMap ''k1'' (7::int)))) ''k1'' = Some 7 \<and>
   ''k2'' \<noteq> ''k1'' \<and>
   fmlookup (forward (snd (Insert NewBiMap ''k1'' (7::int)))) ''k2'' = None \<and>
   fmlookup (inverse (snd (Insert (snd (Insert NewBiMap ''k1'' (7::int))) ''k2'' 7))) 7 = Some ''k2'' \<and>
   fmlookup (forward (snd (Insert (snd (Insert NewBiMap ''k1'' (7::int))) ''k2'' 7))) ''k1'' = Some 7 \<and>
   \<not> bijection_invariant (snd (Insert (snd (Insert NewBiMap ''k1'' (7::int))) ''k2'' 7))"
  using Insert_value_collision [of "snd (Insert NewBiMap ''k1'' (7::int))" "''k1''" 7 "''k2''"]
  by (simp add: Insert_def NewBiMap_def)

section \<open>Inserting a key again\<close>




section \<open>The bijection invariant\<close>

lemma collides_iff:
  "collides b (CallInsert k2 v) = (\<exists>k1. k1 \<noteq> k2 \<and> fmlookup (forward b) k1 = Some v)"
proof -
  have "(v |\<in>| fmran (fmdrop k2 (forward b))) = (\<exists>k1. fmlookup (fmdrop k2 (forward b)) k1 = Some v)"
    by (rule fmlookup_ran_iff)
  also have "\<dots> = (\<exists>k1. k1 \<noteq> k2 \<and> fmlookup (forward b) k1 = Some v)"
    by (simp only: fmlookup_drop) (metis option.distinct(1))
  finally show ?thesis by (simp only: collides.simps)
qed

lemma exact_inverses_New: "exact_inverses NewBiMap"
  by (simp add: exact_inverses_def NewBiMap_def)

lemma exact_inverses_Insert:
  assumes ei: "exact_inverses b" and nc: "\<not> collides b (CallInsert k v)"
  shows "exact_inverses (snd (Insert b k v))"
proof (cases "immutable b")
  case True
  then show ?thesis using ei by (simp add: Insert_def)
next
  case False
  have only_k: "k1 = k" if "fmlookup (forward b) k1 = Some v" for k1
    using nc that unfolding collides_iff by blast
  have fi: "(fmlookup (forward b) a = Some x) = (fmlookup (inverse b) x = Some a)" for a x
    using ei unfolding exact_inverses_def by blast
  show ?thesis
  proof (cases "fmlookup (forward b) k")
    case None
    have "(fmlookup (fmupd k v (forward b)) a = Some x)
            = (fmlookup (fmupd v k (inverse b)) x = Some a)" for a x
    proof (cases "a = k")
      case True
      then show ?thesis using None fi [of k x] by auto
    next
      case a: False
      show ?thesis
      proof (cases "x = v")
        case True
        then show ?thesis using a only_k [of a] by auto
      next
        case False
        then show ?thesis using a fi [of a x] by auto
      qed
    qed
    then show ?thesis using False None by (simp add: exact_inverses_def Insert_def)
  next
    case (Some v_old)
    have "(fmlookup (fmupd k v (forward b)) a = Some x)
            = (fmlookup (fmupd v k (fmdrop v_old (inverse b))) x = Some a)" for a x
    proof (cases "a = k")
      case True
      then show ?thesis using Some fi [of k x] by auto
    next
      case a: False
      show ?thesis
      proof (cases "x = v")
        case True
        then show ?thesis using a only_k [of a] by auto
      next
        case x: False
        show ?thesis
        proof (cases "x = v_old")
          case True
          then show ?thesis using a x Some fi [of k v_old] fi [of a v_old] by auto
        next
          case False
          then show ?thesis using a x fi [of a x] by auto
        qed
      qed
    qed
    then show ?thesis using False Some by (simp add: exact_inverses_def Insert_def)
  qed
qed

lemma exact_inverses_DeleteByKey:
  assumes ei: "exact_inverses b"
  shows "exact_inverses (snd (DeleteByKey b k))"
proof -
  have fi: "(fmlookup (forward b) a = Some x) = (fmlookup (inverse b) x = Some a)" for a x
    using ei unfolding exact_inverses_def by blast
  show ?thesis
  proof (cases "immutable b \<or> fmlookup (forward b) k = None")
    case True
    then show ?thesis using ei by (auto simp: DeleteByKey_def)
  next
    case False
    then obtain val where Some: "fmlookup (forward b) k = Some val" and mut: "\<not> immutable b"
      by auto
    have "(fmlookup (fmdrop k (forward b)) a = Some x)
            = (fmlookup (fmdrop val (inverse b)) x = Some a)" for a x
    proof (cases "a = k")
      case True
      then show ?thesis using Some fi [of k x] by auto
    next
      case a: False
      show ?thesis
      proof (cases "x = val")
        case True
        then show ?thesis using a Some fi [of k val] fi [of a val] by auto
      next
        case False
        then show ?thesis using a fi [of a x] by auto
      qed
    qed
    then show ?thesis using Some mut by (simp add: exact_inverses_def DeleteByKey_def)
  qed
qed

lemma exact_inverses_DeleteByValue:
  assumes ei: "exact_inverses b"
  shows "exact_inverses (snd (DeleteByValue b v))"
proof -
  have fi: "(fmlookup (forward b) a = Some x) = (fmlookup (inverse b) x = Some a)" for a x
    using ei unfolding exact_inverses_def by blast
  show ?thesis
  proof (cases "immutable b \<or> fmlookup (inverse b) v = None")
    case True
    then show ?thesis using ei by (auto simp: DeleteByValue_def)
  next
    case False
    then obtain key where Some: "fmlookup (inverse b) v = Some key" and mut: "\<not> immutable b"
      by auto
    have "(fmlookup (fmdrop key (forward b)) a = Some x)
            = (fmlookup (fmdrop v (inverse b)) x = Some a)" for a x
    proof (cases "x = v")
      case True
      then show ?thesis using Some fi [of a v] by auto
    next
      case x: False
      show ?thesis
      proof (cases "a = key")
        case True
        then show ?thesis using x Some fi [of key v] fi [of key x] by auto
      next
        case False
        then show ?thesis using x fi [of a x] by auto
      qed
    qed
    then show ?thesis using Some mut by (simp add: exact_inverses_def DeleteByValue_def)
  qed
qed

lemma exact_inverses_exec:
  "exact_inverses b \<Longrightarrow> \<not> collides b c \<Longrightarrow> exact_inverses (snd (exec b c))"
proof (cases c)
  case (CallInsert k v)
  assume "exact_inverses b" "\<not> collides b c"
  then show ?thesis using CallInsert exact_inverses_Insert [of b k v] by simp
next
  case CallMakeImmutable
  assume "exact_inverses b"
  then show ?thesis using CallMakeImmutable by (simp add: exact_inverses_def MakeImmutable_def)
qed (simp_all add: exact_inverses_DeleteByKey exact_inverses_DeleteByValue Delete_def DeleteInverse_def)

lemma exact_inverses_run:
  "exact_inverses b \<Longrightarrow> collision_free b cs \<Longrightarrow> exact_inverses (run b (take n cs))"
proof (induction cs arbitrary: b n)
  case Nil
  then show ?case by simp
next
  case (Cons c cs)
  show ?case
  proof (cases n)
    case 0
    then show ?thesis using Cons.prems by simp
  next
    case (Suc m)
    have "exact_inverses (snd (exec b c))"
      using Cons.prems exact_inverses_exec [of b c] by simp
    moreover have "collision_free (snd (exec b c)) cs"
      using Cons.prems by simp
    ultimately have "exact_inverses (run (snd (exec b c)) (take m cs))"
      by (rule Cons.IH)
    then show ?thesis using Suc by simp
  qed
qed

lemma exact_inverses_agree: "exact_inverses b \<Longrightarrow> forward_inverse_agree b"
  by (simp add: exact_inverses_def forward_inverse_agree_def fmpred_iff)

lemma exact_inverses_same_size:
  assumes ei: "exact_inverses b"
  shows "same_size b"
proof -
  let ?f = "\<lambda>k. the (fmlookup (forward b) k)"
  have fi: "(fmlookup (forward b) a = Some x) = (fmlookup (inverse b) x = Some a)" for a x
    using ei unfolding exact_inverses_def by blast
  have inj: "inj_on ?f (fmdom' (forward b))"
  proof (rule inj_onI)
    fix a c
    assume a: "a \<in> fmdom' (forward b)" and c: "c \<in> fmdom' (forward b)" and eq: "?f a = ?f c"
    from a obtain x where x: "fmlookup (forward b) a = Some x" by (auto simp: fmlookup_dom'_iff)
    from c obtain y where y: "fmlookup (forward b) c = Some y" by (auto simp: fmlookup_dom'_iff)
    from eq x y have "x = y" by simp
    with x y fi [of a x] fi [of c x] show "a = c" by simp
  qed
  have img: "?f ` fmdom' (forward b) = fmdom' (inverse b)"
  proof (rule set_eqI)
    fix x
    show "(x \<in> ?f ` fmdom' (forward b)) = (x \<in> fmdom' (inverse b))"
    proof
      assume "x \<in> ?f ` fmdom' (forward b)"
      then obtain a where a: "a \<in> fmdom' (forward b)" and xa: "x = ?f a" by blast
      from a obtain y where y: "fmlookup (forward b) a = Some y" by (auto simp: fmlookup_dom'_iff)
      with xa have "fmlookup (forward b) a = Some x" by simp
      then have "fmlookup (inverse b) x = Some a" using fi by simp
      then show "x \<in> fmdom' (inverse b)" by (rule fmdom'I)
    next
      assume "x \<in> fmdom' (inverse b)"
      then obtain a where "fmlookup (inverse b) x = Some a" by (auto simp: fmlookup_dom'_iff)
      then have fa: "fmlookup (forward b) a = Some x" using fi by simp
      then have "a \<in> fmdom' (forward b)" by (rule fmdom'I)
      moreover have "x = ?f a" using fa by simp
      ultimately show "x \<in> ?f ` fmdom' (forward b)" by blast
    qed
  qed
  have "card (fmdom' (forward b)) = card (?f ` fmdom' (forward b))"
    using inj by (simp add: card_image)
  then have "card (fmdom' (forward b)) = card (fmdom' (inverse b))"
    using img by simp
  then show ?thesis
    by (simp add: same_size_def fcard.rep_eq fmdom'_alt_def)
qed

text \<open>
  C1. Take any sequence of calls of the mutating methods, starting from the empty
  \<open>BiMap\<close> of \<open>NewBiMap\<close>, in which no \<open>Insert(k2, v)\<close> is called while \<open>v\<close> is the
  forward value of a key other than \<open>k2\<close>. After each call, that is after the first \<open>n\<close>
  calls for every \<open>n\<close>, every key \<open>k\<close> of the forward map has
  \<open>inverse[forward[k]] = k\<close>, and the forward and inverse maps have the same number of
  entries. Sequences of \<open>Insert\<close>, \<open>DeleteByKey\<close> and \<open>DeleteByValue\<close> are the case the
  specification names; the deprecated aliases and \<open>MakeImmutable\<close> are covered too.
\<close>

theorem bijection_after_each_call:
  "collision_free NewBiMap cs \<Longrightarrow> bijection_invariant (run NewBiMap (take n cs))"
  using exact_inverses_run [OF exact_inverses_New, of cs n]
  by (simp add: bijection_invariant_def exact_inverses_agree exact_inverses_same_size)


theorem bijection_after_each_call_witness:
  "collision_free NewBiMap
     [CallInsert ''apples'' (1::int), CallInsert ''bananas'' 2, CallInsert ''apples'' 3,
      CallDeleteByKey ''apples'', CallDeleteByValue 2, CallInsert ''pears'' 2] \<and>
   bijection_invariant (run NewBiMap (take 3
     [CallInsert ''apples'' (1::int), CallInsert ''bananas'' 2, CallInsert ''apples'' 3,
      CallDeleteByKey ''apples'', CallDeleteByValue 2, CallInsert ''pears'' 2]))"
proof -
  have h: "collision_free NewBiMap
     [CallInsert ''apples'' (1::int), CallInsert ''bananas'' 2, CallInsert ''apples'' 3,
      CallDeleteByKey ''apples'', CallDeleteByValue 2, CallInsert ''pears'' 2]"
    by code_simp
  show ?thesis using h bijection_after_each_call [OF h, of 3] by simp
qed

section \<open>MakeImmutable is final\<close>

lemma exec_frozen: "immutable b \<Longrightarrow> snd (exec b c) = b"
  by (cases c)
     (simp_all add: Insert_def DeleteByKey_def DeleteByValue_def Delete_def DeleteInverse_def
        MakeImmutable_def)

lemma run_frozen: "immutable b \<Longrightarrow> run b cs = b"
  by (induction cs) (simp_all add: exec_frozen)

text \<open>
  C4. After \<open>MakeImmutable\<close>, whatever mutating methods are called next (\<open>cs\<close>), the
  instance stays in the state \<open>MakeImmutable\<close> left and stays frozen. In that state
  \<open>Insert\<close>, \<open>DeleteByKey\<close> and \<open>DeleteByValue\<close> panic and leave the state as it is; the
  maps are those from before the freeze, and \<open>GetByKey\<close>, \<open>GetByValue\<close>, \<open>Size\<close>,
  \<open>ExistsByKey\<close> and \<open>ExistsByValue\<close> return what they returned before it. A second
  \<open>MakeImmutable\<close> changes nothing.
\<close>

theorem MakeImmutable_final:
  "run (MakeImmutable b) cs = MakeImmutable b \<and>
   immutable (run (MakeImmutable b) cs) \<and>
   Insert (MakeImmutable b) k v = (Inl (Panic ''Cannot modify immutable map''), MakeImmutable b) \<and>
   DeleteByKey (MakeImmutable b) k = (Inl (Panic ''Cannot modify immutable map''), MakeImmutable b) \<and>
   DeleteByValue (MakeImmutable b) v = (Inl (Panic ''Cannot modify immutable map''), MakeImmutable b) \<and>
   forward (MakeImmutable b) = forward b \<and>
   inverse (MakeImmutable b) = inverse b \<and>
   GetByKey (MakeImmutable b) k = GetByKey b k \<and>
   GetByValue (MakeImmutable b) v = GetByValue b v \<and>
   Size (MakeImmutable b) = Size b \<and>
   ExistsByKey (MakeImmutable b) k = ExistsByKey b k \<and>
   ExistsByValue (MakeImmutable b) v = ExistsByValue b v \<and>
   MakeImmutable (MakeImmutable b) = MakeImmutable b"
proof -
  have "immutable (MakeImmutable b)" by (simp add: MakeImmutable_def)
  then have "run (MakeImmutable b) cs = MakeImmutable b" by (rule run_frozen)
  then show ?thesis
    by (simp add: MakeImmutable_def Insert_def DeleteByKey_def DeleteByValue_def GetByKey_def
          GetByValue_def Size_def ExistsByKey_def ExistsByValue_def)
qed

theorem MakeImmutable_final_witness:
  "Insert (run (MakeImmutable (snd (Insert NewBiMap ''Dummy key'' (3::int))))
             [CallDeleteByKey ''Dummy key'', CallDeleteByValue 3]) ''New'' 1
     = (Inl (Panic ''Cannot modify immutable map''),
        MakeImmutable (snd (Insert NewBiMap ''Dummy key'' (3::int)))) \<and>
   Size (MakeImmutable (snd (Insert NewBiMap ''Dummy key'' (3::int)))) = 1 \<and>
   GetByKey (MakeImmutable (snd (Insert NewBiMap ''Dummy key'' (3::int)))) ''Dummy key'' = Some 3"
  using MakeImmutable_final [of "snd (Insert NewBiMap ''Dummy key'' (3::int))"
          "[CallDeleteByKey ''Dummy key'', CallDeleteByValue 3]" "''New''" 1]
        MakeImmutable_final [of "snd (Insert NewBiMap ''Dummy key'' (3::int))"
          "[]" "''Dummy key''" 3]
  by (simp add: Size_def GetByKey_def Insert_def NewBiMap_def fcard_finsert_if)

section \<open>Freeze takes an independent snapshot\<close>

lemma fold_copy_lookup:
  "fmlookup (fold (\<lambda>k m. case fmlookup s k of Some v \<Rightarrow> fmupd k v m | None \<Rightarrow> m) ks m0) a
     = (if a \<in> set ks \<and> fmlookup s a \<noteq> None then fmlookup s a else fmlookup m0 a)"
  by (induction ks arbitrary: m0) (auto split: option.splits)

lemma fold_copy_full:
  assumes "range_keys s ks"
  shows "fold (\<lambda>k m. case fmlookup s k of Some v \<Rightarrow> fmupd k v m | None \<Rightarrow> m) ks fmempty = s"
proof (rule fmap_ext)
  fix a
  have "(a \<in> set ks) = (a |\<in>| fmdom s)"
    using assms by (simp add: range_keys_def fset_of_list_elem [symmetric])
  then have "(a \<in> set ks) = (fmlookup s a \<noteq> None)"
    by (simp add: fmlookup_dom_iff)
  then show "fmlookup (fold (\<lambda>k m. case fmlookup s k of Some v \<Rightarrow> fmupd k v m | None \<Rightarrow> m) ks fmempty) a
               = fmlookup s a"
    by (simp add: fold_copy_lookup)
qed

lemma copy_kv_eq:
  "src \<noteq> dst \<Longrightarrow>
   copy_kv h src dst ks =
     h\<lparr>kv_maps := (kv_maps h)(dst :=
          fold (\<lambda>k m. case fmlookup (kv_maps h src) k of Some v \<Rightarrow> fmupd k v m | None \<Rightarrow> m)
               ks (kv_maps h dst))\<rparr>"
proof (induction ks arbitrary: h)
  case Nil
  then show ?case by (simp add: copy_kv_def)
next
  case (Cons k ks)
  have step: "copy_kv h src dst (k # ks) =
      copy_kv (case fmlookup (kv_maps h src) k of Some v \<Rightarrow> set_kv h dst k v | None \<Rightarrow> h) src dst ks"
    by (simp add: copy_kv_def)
  show ?case
  proof (cases "fmlookup (kv_maps h src) k")
    case None
    then show ?thesis using Cons step by simp
  next
    case (Some v)
    then show ?thesis using Cons.prems step Cons.IH [of "set_kv h dst k v"]
      by (simp add: set_kv_def cong: if_cong)
  qed
qed

lemma copy_vk_eq:
  "src \<noteq> dst \<Longrightarrow>
   copy_vk h src dst vs =
     h\<lparr>vk_maps := (vk_maps h)(dst :=
          fold (\<lambda>v m. case fmlookup (vk_maps h src) v of Some k \<Rightarrow> fmupd v k m | None \<Rightarrow> m)
               vs (vk_maps h dst))\<rparr>"
proof (induction vs arbitrary: h)
  case Nil
  then show ?case by (simp add: copy_vk_def)
next
  case (Cons v vs)
  have step: "copy_vk h src dst (v # vs) =
      copy_vk (case fmlookup (vk_maps h src) v of Some k \<Rightarrow> set_vk h dst v k | None \<Rightarrow> h) src dst vs"
    by (simp add: copy_vk_def)
  show ?case
  proof (cases "fmlookup (vk_maps h src) v")
    case None
    then show ?thesis using Cons step by simp
  next
    case (Some k)
    then show ?thesis using Cons.prems step Cons.IH [of "set_vk h dst v k"]
      by (simp add: set_vk_def cong: if_cong)
  qed
qed

lemma copy_kv_full:
  "src \<noteq> dst \<Longrightarrow> kv_maps h dst = fmempty \<Longrightarrow> range_keys (kv_maps h src) ks \<Longrightarrow>
   copy_kv h src dst ks = h\<lparr>kv_maps := (kv_maps h)(dst := kv_maps h src)\<rparr>"
  by (simp add: copy_kv_eq fold_copy_full)

lemma copy_vk_full:
  "src \<noteq> dst \<Longrightarrow> vk_maps h dst = fmempty \<Longrightarrow> range_keys (vk_maps h src) vs \<Longrightarrow>
   copy_vk h src dst vs = h\<lparr>vk_maps := (vk_maps h)(dst := vk_maps h src)\<rparr>"
  by (simp add: copy_vk_eq fold_copy_full)

lemma Freeze_eq:
  assumes "allocated h b"
    and "range_keys (kv_maps h (ref_forward b)) fwd_order"
    and "range_keys (vk_maps h (ref_inverse b)) inv_order"
  shows "Freeze fwd_order inv_order h b =
    (\<lparr>iref_forward = brk h, iref_inverse = Suc (brk h)\<rparr>,
     h\<lparr>kv_maps := (kv_maps h)(brk h := kv_maps h (ref_forward b)),
       vk_maps := (vk_maps h)(Suc (brk h) := vk_maps h (ref_inverse b)),
       brk := Suc (Suc (brk h))\<rparr>)"
proof -
  have f: "ref_forward b \<noteq> brk h" and i: "ref_inverse b \<noteq> Suc (brk h)"
    using assms(1) by (auto simp: allocated_def)
  show ?thesis
    using f i assms(2,3)
    by (simp add: Freeze_def make_kv_def make_vk_def copy_kv_full copy_vk_full)
qed

lemma on_heap_frame:
  assumes "on_heap method h b = (res, b', h')"
  shows "ref_forward b' = ref_forward b \<and> ref_inverse b' = ref_inverse b \<and> brk h' = brk h \<and>
         (\<forall>a. a \<noteq> ref_forward b \<longrightarrow> kv_maps h' a = kv_maps h a) \<and>
         (\<forall>a. a \<noteq> ref_inverse b \<longrightarrow> vk_maps h' a = vk_maps h a)"
  using assms by (auto simp: on_heap_def split: prod.splits)

lemma run_heap_frame:
  "run_heap h b cs = (b', h') \<Longrightarrow>
     ref_forward b' = ref_forward b \<and> ref_inverse b' = ref_inverse b \<and> brk h' = brk h \<and>
     (\<forall>a. a \<noteq> ref_forward b \<longrightarrow> kv_maps h' a = kv_maps h a) \<and>
     (\<forall>a. a \<noteq> ref_inverse b \<longrightarrow> vk_maps h' a = vk_maps h a)"
proof (induction cs arbitrary: h b)
  case Nil
  then show ?case by simp
next
  case (Cons c cs)
  obtain res b1 h1 where s: "on_heap (\<lambda>s. exec s c) h b = (res, b1, h1)"
    by (cases "on_heap (\<lambda>s. exec s c) h b") auto
  then have r: "run_heap h1 b1 cs = (b', h')" using Cons.prems by simp
  from on_heap_frame [OF s] Cons.IH [OF r] show ?case by simp
qed


lemma deref_on_heap:
  "on_heap method h b = (res, b', h') \<Longrightarrow> (res, deref h' b') = method (deref h b)"
  by (auto simp: on_heap_def deref_def split: prod.splits)

lemma deref_run_heap:
  "run_heap h b cs = (b', h') \<Longrightarrow> deref h' b' = run (deref h b) cs"
proof (induction cs arbitrary: h b)
  case Nil
  then show ?case by simp
next
  case (Cons c cs)
  obtain res b1 h1 where s: "on_heap (\<lambda>s. exec s c) h b = (res, b1, h1)"
    by (cases "on_heap (\<lambda>s. exec s c) h b") auto
  then have r: "run_heap h1 b1 cs = (b', h')" using Cons.prems by simp
  have "deref h1 b1 = snd (exec (deref h b) c)"
    using deref_on_heap [OF s] by (metis snd_conv)
  then show ?case using Cons.IH [OF r] by simp
qed

text \<open>
  C5. Let \<open>b\<close> be a \<open>BiMap\<close> whose two maps are allocated in the store \<open>h\<close>, and let
  \<open>Freeze\<close> range over the keys of its maps in any order. \<open>Freeze\<close> returns an
  \<open>ImmutableBiMap\<close> \<open>s\<close> whose forward and inverse maps hold exactly the entries of
  those of \<open>b\<close> at the call, in map objects other than those of \<open>b\<close>. The call leaves
  the state of \<open>b\<close> (its maps and its flag) as it was, and the mutating methods called on
  \<open>b\<close> afterwards (\<open>cs\<close>) act on \<open>b\<close> as usual. After them \<open>s\<close> still holds what it held:
  \<open>Size\<close>, \<open>ExistsByKey\<close>, \<open>ExistsByValue\<close>, \<open>GetByKey\<close> and \<open>GetByValue\<close> on \<open>s\<close>
  return what the same reads on \<open>b\<close> returned when the snapshot was taken.
\<close>

theorem Freeze_snapshot:
  assumes "allocated h b"
    and "range_keys (kv_maps h (ref_forward b)) fwd_order"
    and "range_keys (vk_maps h (ref_inverse b)) inv_order"
    and "Freeze fwd_order inv_order h b = (s, h1)"
    and "run_heap h1 b cs = (b2, h2)"
  shows "ib_forward (deref_Immutable h1 s) = forward (deref h b) \<and>
         ib_inverse (deref_Immutable h1 s) = inverse (deref h b) \<and>
         iref_forward s \<noteq> ref_forward b \<and> iref_inverse s \<noteq> ref_inverse b \<and>
         deref h1 b = deref h b \<and>
         deref h2 b2 = run (deref h b) cs \<and>
         deref_Immutable h2 s = deref_Immutable h1 s \<and>
         Size_Immutable (deref_Immutable h2 s) = Size (deref h b) \<and>
         ExistsByKey_Immutable (deref_Immutable h2 s) k = ExistsByKey (deref h b) k \<and>
         ExistsByValue_Immutable (deref_Immutable h2 s) v = ExistsByValue (deref h b) v \<and>
         GetByKey_Immutable (deref_Immutable h2 s) k = GetByKey (deref h b) k \<and>
         GetByValue_Immutable (deref_Immutable h2 s) v = GetByValue (deref h b) v"
proof -
  have f: "ref_forward b \<noteq> brk h" and i: "ref_inverse b \<noteq> Suc (brk h)"
    using assms(1) by (auto simp: allocated_def)
  have s: "s = \<lparr>iref_forward = brk h, iref_inverse = Suc (brk h)\<rparr>"
    and h1: "h1 = h\<lparr>kv_maps := (kv_maps h)(brk h := kv_maps h (ref_forward b)),
                     vk_maps := (vk_maps h)(Suc (brk h) := vk_maps h (ref_inverse b)),
                     brk := Suc (Suc (brk h))\<rparr>"
    using Freeze_eq [OF assms(1,2,3)] assms(4) by simp_all
  have snap: "deref_Immutable h1 s =
      \<lparr>ib_forward = forward (deref h b), ib_inverse = inverse (deref h b)\<rparr>"
    using s h1 by (simp add: deref_Immutable_def deref_def)
  have same: "deref h1 b = deref h b"
    using f i h1 by (simp add: deref_def)
  have later: "deref_Immutable h2 s = deref_Immutable h1 s"
    using run_heap_frame [OF assms(5)] s f i by (simp add: deref_Immutable_def)
  have mut: "deref h2 b2 = run (deref h b) cs"
    using deref_run_heap [OF assms(5)] same by simp
  have refs: "iref_forward s \<noteq> ref_forward b \<and> iref_inverse s \<noteq> ref_inverse b"
    using s f i by auto
  show ?thesis
    using refs same mut
    by (simp add: later snap Size_Immutable_def Size_def ExistsByKey_Immutable_def ExistsByKey_def
          ExistsByValue_Immutable_def ExistsByValue_def GetByKey_Immutable_def GetByKey_def
          GetByValue_Immutable_def GetByValue_def)
qed

theorem Freeze_snapshot_witness:
  "allocated
     \<lparr>kv_maps = (\<lambda>_. fmempty)(0 := fmupd ''a'' (1::int) (fmupd ''b'' 2 fmempty)),
      vk_maps = (\<lambda>_. fmempty)(1 := fmupd 1 ''a'' (fmupd 2 ''b'' fmempty)), brk = 2\<rparr>
     \<lparr>ref_immutable = False, ref_forward = 0, ref_inverse = 1\<rparr> \<and>
   range_keys (fmupd ''a'' (1::int) (fmupd ''b'' 2 fmempty)) [''b'', ''a''] \<and>
   range_keys (fmupd (1::int) ''a'' (fmupd 2 ''b'' fmempty)) [1, 2] \<and>
   Size_Immutable
     (deref_Immutable
        (snd (run_heap
           (snd (Freeze [''b'', ''a''] [1, 2]
              \<lparr>kv_maps = (\<lambda>_. fmempty)(0 := fmupd ''a'' (1::int) (fmupd ''b'' 2 fmempty)),
               vk_maps = (\<lambda>_. fmempty)(1 := fmupd 1 ''a'' (fmupd 2 ''b'' fmempty)), brk = 2\<rparr>
              \<lparr>ref_immutable = False, ref_forward = 0, ref_inverse = 1\<rparr>))
           \<lparr>ref_immutable = False, ref_forward = 0, ref_inverse = 1\<rparr>
           [CallInsert ''c'' 3]))
        (fst (Freeze [''b'', ''a''] [1, 2]
              \<lparr>kv_maps = (\<lambda>_. fmempty)(0 := fmupd ''a'' (1::int) (fmupd ''b'' 2 fmempty)),
               vk_maps = (\<lambda>_. fmempty)(1 := fmupd 1 ''a'' (fmupd 2 ''b'' fmempty)), brk = 2\<rparr>
              \<lparr>ref_immutable = False, ref_forward = 0, ref_inverse = 1\<rparr>))) = 2 \<and>
   \<not> ExistsByKey_Immutable
     (deref_Immutable
        (snd (run_heap
           (snd (Freeze [''b'', ''a''] [1, 2]
              \<lparr>kv_maps = (\<lambda>_. fmempty)(0 := fmupd ''a'' (1::int) (fmupd ''b'' 2 fmempty)),
               vk_maps = (\<lambda>_. fmempty)(1 := fmupd 1 ''a'' (fmupd 2 ''b'' fmempty)), brk = 2\<rparr>
              \<lparr>ref_immutable = False, ref_forward = 0, ref_inverse = 1\<rparr>))
           \<lparr>ref_immutable = False, ref_forward = 0, ref_inverse = 1\<rparr>
           [CallInsert ''c'' 3]))
        (fst (Freeze [''b'', ''a''] [1, 2]
              \<lparr>kv_maps = (\<lambda>_. fmempty)(0 := fmupd ''a'' (1::int) (fmupd ''b'' 2 fmempty)),
               vk_maps = (\<lambda>_. fmempty)(1 := fmupd 1 ''a'' (fmupd 2 ''b'' fmempty)), brk = 2\<rparr>
              \<lparr>ref_immutable = False, ref_forward = 0, ref_inverse = 1\<rparr>))) ''c''"
proof -
  let ?H = "\<lparr>kv_maps = (\<lambda>_. fmempty)(0 := fmupd ''a'' (1::int) (fmupd ''b'' 2 fmempty)),
      vk_maps = (\<lambda>_. fmempty)(1 := fmupd 1 ''a'' (fmupd 2 ''b'' fmempty)), brk = 2\<rparr>"
  let ?M = "\<lparr>ref_immutable = False, ref_forward = 0, ref_inverse = 1\<rparr>"
  let ?F = "Freeze [''b'', ''a''] [1, 2] ?H ?M"
  let ?R = "run_heap (snd ?F) ?M [CallInsert ''c'' 3]"
  have a: "allocated ?H ?M" by (simp add: allocated_def)
  have r1: "range_keys (kv_maps ?H (ref_forward ?M)) [''b'', ''a'']"
    by (auto simp: range_keys_def)
  have r2: "range_keys (vk_maps ?H (ref_inverse ?M)) [1, 2]"
    by (auto simp: range_keys_def)
  have fr: "?F = (fst ?F, snd ?F)" by simp
  have rn: "?R = (fst ?R, snd ?R)" by simp
  have sz: "Size (deref ?H ?M) = 2"
    by (simp add: Size_def deref_def fcard_finsert_if)
  have ex: "\<not> ExistsByKey (deref ?H ?M) ''c''"
    by (simp add: ExistsByKey_def deref_def)
  from Freeze_snapshot [OF a r1 r2 fr rn, of "''c''"]
  have "Size_Immutable (deref_Immutable (snd ?R) (fst ?F)) = Size (deref ?H ?M)"
    and "ExistsByKey_Immutable (deref_Immutable (snd ?R) (fst ?F)) ''c''
           = ExistsByKey (deref ?H ?M) ''c''"
    by blast+
  with sz ex have "Size_Immutable (deref_Immutable (snd ?R) (fst ?F)) = 2"
    and "\<not> ExistsByKey_Immutable (deref_Immutable (snd ?R) (fst ?F)) ''c''"
    by simp_all
  moreover from r1 have "range_keys (fmupd ''a'' (1::int) (fmupd ''b'' 2 fmempty)) [''b'', ''a'']" by simp
  moreover from r2 have "range_keys (fmupd (1::int) ''a'' (fmupd 2 ''b'' fmempty)) [1, 2]" by simp
  ultimately show ?thesis using a by blast
qed

section \<open>The accessors of ImmutableBiMap return copies\<close>

lemma GetForwardMap_Immutable_eq:
  assumes "allocated_Immutable h ib" and "range_keys (kv_maps h (iref_forward ib)) fwd_order"
  shows "GetForwardMap_Immutable fwd_order h ib =
    (brk h, h\<lparr>kv_maps := (kv_maps h)(brk h := kv_maps h (iref_forward ib)), brk := Suc (brk h)\<rparr>)"
proof -
  have "iref_forward ib \<noteq> brk h" using assms(1) by (auto simp: allocated_Immutable_def)
  then show ?thesis using assms(2)
    by (simp add: GetForwardMap_Immutable_def make_kv_def copy_kv_full)
qed

lemma GetInverseMap_Immutable_eq:
  assumes "allocated_Immutable h ib" and "range_keys (vk_maps h (iref_inverse ib)) inv_order"
  shows "GetInverseMap_Immutable inv_order h ib =
    (brk h, h\<lparr>vk_maps := (vk_maps h)(brk h := vk_maps h (iref_inverse ib)), brk := Suc (brk h)\<rparr>)"
proof -
  have "iref_inverse ib \<noteq> brk h" using assms(1) by (auto simp: allocated_Immutable_def)
  then show ?thesis using assms(2)
    by (simp add: GetInverseMap_Immutable_def make_vk_def copy_vk_full)
qed

text \<open>
  C8. Let \<open>ib\<close> be an \<open>ImmutableBiMap\<close> whose two maps are allocated in the store \<open>h\<close>.
  \<open>GetForwardMap\<close> and \<open>GetInverseMap\<close> each return a map object that did not exist
  before the call (so no two calls return the same one) and that holds exactly the
  entries of the forward, respectively inverse, map of \<open>ib\<close>. Whatever is written to the
  returned object afterwards (its contents replaced by any \<open>x\<close>, respectively \<open>y\<close>), the
  maps of \<open>ib\<close> are those from before the call, and so are \<open>Size\<close>, \<open>ExistsByKey\<close> and
  \<open>ExistsByValue\<close>.
\<close>

theorem Immutable_accessors_copy:
  assumes "allocated_Immutable h ib"
    and "range_keys (kv_maps h (iref_forward ib)) fwd_order"
    and "range_keys (vk_maps h (iref_inverse ib)) inv_order"
    and "GetForwardMap_Immutable fwd_order h ib = (m, hf)"
    and "GetInverseMap_Immutable inv_order h ib = (n, hi)"
  shows "kv_maps hf m = ib_forward (deref_Immutable h ib) \<and>
         vk_maps hi n = ib_inverse (deref_Immutable h ib) \<and>
         m = brk h \<and> brk hf = Suc m \<and> m \<noteq> iref_forward ib \<and>
         n = brk h \<and> brk hi = Suc n \<and> n \<noteq> iref_inverse ib \<and>
         deref_Immutable (hf\<lparr>kv_maps := (kv_maps hf)(m := x)\<rparr>) ib = deref_Immutable h ib \<and>
         deref_Immutable (hi\<lparr>vk_maps := (vk_maps hi)(n := y)\<rparr>) ib = deref_Immutable h ib \<and>
         Size_Immutable (deref_Immutable (hf\<lparr>kv_maps := (kv_maps hf)(m := x)\<rparr>) ib)
           = Size_Immutable (deref_Immutable h ib) \<and>
         ExistsByKey_Immutable (deref_Immutable (hf\<lparr>kv_maps := (kv_maps hf)(m := x)\<rparr>) ib) k
           = ExistsByKey_Immutable (deref_Immutable h ib) k \<and>
         ExistsByValue_Immutable (deref_Immutable (hi\<lparr>vk_maps := (vk_maps hi)(n := y)\<rparr>) ib) v
           = ExistsByValue_Immutable (deref_Immutable h ib) v"
proof -
  have f: "iref_forward ib \<noteq> brk h" and i: "iref_inverse ib \<noteq> brk h"
    using assms(1) by (auto simp: allocated_Immutable_def)
  have m: "m = brk h"
    and hf: "hf = h\<lparr>kv_maps := (kv_maps h)(brk h := kv_maps h (iref_forward ib)), brk := Suc (brk h)\<rparr>"
    using GetForwardMap_Immutable_eq [OF assms(1,2)] assms(4) by simp_all
  have n: "n = brk h"
    and hi: "hi = h\<lparr>vk_maps := (vk_maps h)(brk h := vk_maps h (iref_inverse ib)), brk := Suc (brk h)\<rparr>"
    using GetInverseMap_Immutable_eq [OF assms(1,3)] assms(5) by simp_all
  have fw: "deref_Immutable (hf\<lparr>kv_maps := (kv_maps hf)(m := x)\<rparr>) ib = deref_Immutable h ib"
    using f m hf by (simp add: deref_Immutable_def)
  have iw: "deref_Immutable (hi\<lparr>vk_maps := (vk_maps hi)(n := y)\<rparr>) ib = deref_Immutable h ib"
    using i n hi by (simp add: deref_Immutable_def)
  show ?thesis
    using f i m n hf hi by (simp add: fw iw) (simp add: deref_Immutable_def)
qed

theorem Immutable_accessors_copy_witness:
  "allocated_Immutable
     \<lparr>kv_maps = (\<lambda>_. fmempty)(0 := fmupd ''a'' (1::int) fmempty),
      vk_maps = (\<lambda>_. fmempty)(1 := fmupd 1 ''a'' fmempty), brk = 2\<rparr>
     \<lparr>iref_forward = 0, iref_inverse = 1\<rparr> \<and>
   range_keys (fmupd ''a'' (1::int) fmempty) [''a''] \<and>
   range_keys (fmupd (1::int) ''a'' fmempty) [1] \<and>
   Size_Immutable
     (deref_Immutable
        ((snd (GetForwardMap_Immutable [''a'']
            \<lparr>kv_maps = (\<lambda>_. fmempty)(0 := fmupd ''a'' (1::int) fmempty),
             vk_maps = (\<lambda>_. fmempty)(1 := fmupd 1 ''a'' fmempty), brk = 2\<rparr>
            \<lparr>iref_forward = 0, iref_inverse = 1\<rparr>))
         \<lparr>kv_maps :=
            (kv_maps (snd (GetForwardMap_Immutable [''a'']
               \<lparr>kv_maps = (\<lambda>_. fmempty)(0 := fmupd ''a'' (1::int) fmempty),
                vk_maps = (\<lambda>_. fmempty)(1 := fmupd 1 ''a'' fmempty), brk = 2\<rparr>
               \<lparr>iref_forward = 0, iref_inverse = 1\<rparr>)))
            (fst (GetForwardMap_Immutable [''a'']
               \<lparr>kv_maps = (\<lambda>_. fmempty)(0 := fmupd ''a'' (1::int) fmempty),
                vk_maps = (\<lambda>_. fmempty)(1 := fmupd 1 ''a'' fmempty), brk = 2\<rparr>
               \<lparr>iref_forward = 0, iref_inverse = 1\<rparr>)
             := fmupd ''b'' 2 (fmupd ''a'' 1 fmempty))\<rparr>)
        \<lparr>iref_forward = 0, iref_inverse = 1\<rparr>) = 1"
proof -
  let ?H = "\<lparr>kv_maps = (\<lambda>_. fmempty)(0 := fmupd ''a'' (1::int) fmempty),
      vk_maps = (\<lambda>_. fmempty)(1 := fmupd 1 ''a'' fmempty), brk = 2\<rparr>"
  let ?ib = "\<lparr>iref_forward = 0, iref_inverse = 1\<rparr>"
  let ?F = "GetForwardMap_Immutable [''a''] ?H ?ib"
  let ?I = "GetInverseMap_Immutable [1] ?H ?ib"
  have a: "allocated_Immutable ?H ?ib" by (simp add: allocated_Immutable_def)
  have r1: "range_keys (kv_maps ?H (iref_forward ?ib)) [''a'']"
    by (auto simp: range_keys_def)
  have r2: "range_keys (vk_maps ?H (iref_inverse ?ib)) [1]"
    by (auto simp: range_keys_def)
  have f: "?F = (fst ?F, snd ?F)" by simp
  have i: "?I = (fst ?I, snd ?I)" by simp
  have sz: "Size_Immutable (deref_Immutable ?H ?ib) = 1"
    by (simp add: Size_Immutable_def deref_Immutable_def fcard_finsert_if)
  from Immutable_accessors_copy [OF a r1 r2 f i, of "fmupd ''b'' 2 (fmupd ''a'' 1 fmempty)"]
  have "Size_Immutable (deref_Immutable
          ((snd ?F)\<lparr>kv_maps := (kv_maps (snd ?F))(fst ?F := fmupd ''b'' 2 (fmupd ''a'' 1 fmempty))\<rparr>) ?ib)
        = Size_Immutable (deref_Immutable ?H ?ib)"
    by blast
  with sz have "Size_Immutable (deref_Immutable
          ((snd ?F)\<lparr>kv_maps := (kv_maps (snd ?F))(fst ?F := fmupd ''b'' 2 (fmupd ''a'' 1 fmempty))\<rparr>) ?ib)
        = 1"
    by simp
  moreover from r1 have "range_keys (fmupd ''a'' (1::int) fmempty) [''a'']" by simp
  moreover from r2 have "range_keys (fmupd (1::int) ''a'' fmempty) [1]" by simp
  ultimately show ?thesis using a by blast
qed

section \<open>Instances built by the constructors are allocated\<close>

text \<open>
  The two theorems on the store assume that the maps of the instance are allocated and
  that the loops range over the keys of the map. Both hold for every instance the
  source can build: \<open>NewBiMap\<close> and \<open>Freeze\<close> return allocated instances, mutating
  calls keep an instance allocated, and every map has a range order.
\<close>

lemma allocated_NewBiMap_heap:
  "NewBiMap_heap h = (b, h') \<Longrightarrow> allocated h' b \<and> deref h' b = NewBiMap"
  by (auto simp: NewBiMap_heap_def make_kv_def make_vk_def allocated_def deref_def NewBiMap_def)

lemma allocated_run_heap:
  "allocated h b \<Longrightarrow> run_heap h b cs = (b', h') \<Longrightarrow> allocated h' b'"
  using run_heap_frame [of h b cs b' h'] by (simp add: allocated_def)

lemma brk_copy_kv: "brk (copy_kv g src dst ks) = brk g"
proof -
  have "brk (fold (\<lambda>k h'. case fmlookup (kv_maps h' src) k of
                      Some v \<Rightarrow> set_kv h' dst k v | None \<Rightarrow> h') ks g) = brk g"
  proof (induction ks arbitrary: g)
    case Nil
    show ?case by simp
  next
    case (Cons k ks)
    show ?case
      by (cases "fmlookup (kv_maps g src) k") (simp_all add: Cons.IH set_kv_def)
  qed
  then show ?thesis by (simp only: copy_kv_def)
qed

lemma brk_copy_vk: "brk (copy_vk g src dst vs) = brk g"
proof -
  have "brk (fold (\<lambda>v h'. case fmlookup (vk_maps h' src) v of
                      Some k \<Rightarrow> set_vk h' dst v k | None \<Rightarrow> h') vs g) = brk g"
  proof (induction vs arbitrary: g)
    case Nil
    show ?case by simp
  next
    case (Cons v vs)
    show ?case
      by (cases "fmlookup (vk_maps g src) v") (simp_all add: Cons.IH set_vk_def)
  qed
  then show ?thesis by (simp only: copy_vk_def)
qed

lemma allocated_Freeze:
  "Freeze fwd_order inv_order h b = (s, h') \<Longrightarrow> allocated_Immutable h' s"
  by (auto simp: Freeze_def make_kv_def make_vk_def allocated_Immutable_def brk_copy_kv brk_copy_vk)

lemma range_keys_exists: "\<exists>ks. range_keys m ks"
proof -
  obtain ks where ks: "set ks = fset (fmdom m)" and d: "distinct ks"
    using finite_distinct_list [of "fset (fmdom m)"] by auto
  have "fset (fset_of_list ks) = fset (fmdom m)"
    using ks by (simp add: fset_of_list.rep_eq)
  then have "fset_of_list ks = fmdom m"
    by (simp only: fset_inject)
  with d have "range_keys m ks" by (simp add: range_keys_def)
  then show ?thesis ..
qed

end
